theory Spec2Isabelle
  imports Complex_Main "HOL-Library.Word"
begin

section \<open>Strings and buffers\<close>

text \<open>
  A Node.js \<^verbatim>\<open>Buffer\<close> is a sequence of bytes; a JavaScript string is a sequence of
  16-bit code units. String literals of the source are all ASCII and are written with
  \<open>lit\<close>; the bytes of an ASCII text are written with \<open>ascii\<close>.
\<close>

type_synonym byte = "8 word"
type_synonym code_unit = "16 word"
type_synonym jsstring = "code_unit list"

definition lit :: "string \<Rightarrow> jsstring" where
  "lit s = map of_char s"

definition ascii :: "string \<Rightarrow> byte list" where
  "ascii s = map of_char s"

text \<open>\<^verbatim>\<open>s.split(c)\<close> for a separator of one code unit: never empty, the last element is
  what follows the last separator.\<close>

fun split_on :: "'a \<Rightarrow> 'a list \<Rightarrow> 'a list list" where
  "split_on c [] = [[]]"
| "split_on c (x # xs) =
     (if x = c then [] # split_on c xs
      else (case split_on c xs of
              [] \<Rightarrow> [[x]]
            | l # ls \<Rightarrow> (x # l) # ls))"

definition startsWith :: "'a list \<Rightarrow> 'a list \<Rightarrow> bool" where
  "startsWith s p = (take (length p) s = p)"

definition includes_unit :: "'a list \<Rightarrow> 'a \<Rightarrow> bool" where
  "includes_unit s c = (c \<in> set s)"

text \<open>The code units that \<^verbatim>\<open>trim\<close>, \<^verbatim>\<open>parseInt\<close>, \<^verbatim>\<open>parseFloat\<close> and the string-to-number
  conversions skip: ECMAScript's WhiteSpace and LineTerminator.\<close>

definition is_white_space :: "code_unit \<Rightarrow> bool" where
  "is_white_space c =
     (c \<in> set [0x9, 0xA, 0xB, 0xC, 0xD, 0x20, 0xA0, 0x1680, 0x2028, 0x2029,
               0x202F, 0x205F, 0x3000, 0xFEFF]
      \<or> (0x2000 \<le> c \<and> c \<le> 0x200A))"

definition trimStart :: "jsstring \<Rightarrow> jsstring" where
  "trimStart s = dropWhile is_white_space s"

definition trim :: "jsstring \<Rightarrow> jsstring" where
  "trim s = rev (dropWhile is_white_space (rev (dropWhile is_white_space s)))"

text \<open>
  \<^verbatim>\<open>toLowerCase\<close> on the ASCII range; other code units are left as they are. The source
  uses the result only to compare with \<^verbatim>\<open>"true"\<close> and to split a number at \<^verbatim>\<open>"e"\<close>:
  Unicode's lower-casing maps no character outside \<^verbatim>\<open>A-Z\<close> to a letter of \<^verbatim>\<open>"true"\<close>, to
  a digit, a sign, a point or a white space, so neither use can tell the difference.
\<close>

definition lower_unit :: "code_unit \<Rightarrow> code_unit" where
  "lower_unit c = (if 0x41 \<le> c \<and> c \<le> 0x5A then c + 0x20 else c)"

definition toLowerCase :: "jsstring \<Rightarrow> jsstring" where
  "toLowerCase s = map lower_unit s"

subsection \<open>Digits\<close>

definition is_digit :: "code_unit \<Rightarrow> bool" where
  "is_digit c = (0x30 \<le> c \<and> c \<le> 0x39)"

text \<open>The value of a digit of any radix up to 16 (\<^verbatim>\<open>0-9\<close>, \<^verbatim>\<open>a-f\<close>, \<^verbatim>\<open>A-F\<close>); 16 for a code
  unit that is no digit.\<close>

definition digit_value :: "code_unit \<Rightarrow> int" where
  "digit_value c =
     (if 0x30 \<le> c \<and> c \<le> 0x39 then uint c - 0x30
      else if 0x61 \<le> c \<and> c \<le> 0x66 then uint c - 0x57
      else if 0x41 \<le> c \<and> c \<le> 0x46 then uint c - 0x37
      else 16)"

definition is_radix_digit :: "int \<Rightarrow> code_unit \<Rightarrow> bool" where
  "is_radix_digit r c = (digit_value c < r)"

text \<open>The number a run of digits denotes in radix \<open>r\<close>.\<close>

definition radix_value :: "int \<Rightarrow> jsstring \<Rightarrow> int" where
  "radix_value r ds = foldl (\<lambda>a c. r * a + digit_value c) 0 ds"

definition decimal :: "jsstring \<Rightarrow> int" where
  "decimal ds = radix_value 10 ds"

section \<open>Numbers\<close>

text \<open>
  A JavaScript Number is an IEEE 754 binary64 value. A finite one is given by the rational
  it denotes; the sign of zero is not kept (\<^verbatim>\<open>-0\<close> and \<^verbatim>\<open>0\<close> are equal under \<^verbatim>\<open>===\<close>
  and convert to the same BigInt).
\<close>

datatype number = NaN | PosInfinity | NegInfinity | Finite rat

text \<open>Number of binary digits of a positive integer.\<close>

function bit_length :: "int \<Rightarrow> int" where
  "bit_length n = (if n \<le> 0 then 0 else 1 + bit_length (n div 2))"
  by pat_completeness auto
termination
  by (relation "measure nat") auto

declare bit_length.simps [simp del]

text \<open>\<open>b\<close> to an integer power, as a rational.\<close>

definition ipow :: "int \<Rightarrow> int \<Rightarrow> rat" where
  "ipow b p = (if 0 \<le> p then of_int (b ^ nat p) else 1 / of_int (b ^ nat (- p)))"

text \<open>For \<open>0 < x\<close>, the exponent \<open>e\<close> with \<open>ipow 2 e \<le> x < ipow 2 (e + 1)\<close>.\<close>

definition binade :: "rat \<Rightarrow> int" where
  "binade x =
     (let k = bit_length (fst (quotient_of x)) - bit_length (snd (quotient_of x))
      in if ipow 2 k \<le> x then k else k - 1)"

definition round_half_even :: "rat \<Rightarrow> int" where
  "round_half_even x =
     (let f = \<lfloor>x\<rfloor>; d = x - of_int f
      in if d < 1 / 2 then f else if 1 / 2 < d then f + 1 else if even f then f else f + 1)"

text \<open>
  The Number value for a rational: round to nearest, ties to even, with 53 bits of
  precision, gradual underflow (no quantum below \<open>ipow 2 (- 1074)\<close>) and overflow to an
  infinity from \<open>ipow 2 1024\<close> on.
\<close>

definition fl :: "rat \<Rightarrow> number" where
  "fl x =
     (if x = 0 then Finite 0
      else
        let p = max (binade \<bar>x\<bar> - 52) (- 1074);
            r = of_int (round_half_even (x / ipow 2 p)) * ipow 2 p
        in if ipow 2 1024 \<le> \<bar>r\<bar> then (if 0 < x then PosInfinity else NegInfinity)
           else Finite r)"

text \<open>\<^verbatim>\<open>a * b\<close> on Numbers.\<close>

fun multiply :: "number \<Rightarrow> number \<Rightarrow> number" where
  "multiply NaN b = NaN"
| "multiply a NaN = NaN"
| "multiply (Finite a) (Finite b) = fl (a * b)"
| "multiply (Finite a) PosInfinity =
     (if a = 0 then NaN else if 0 < a then PosInfinity else NegInfinity)"
| "multiply (Finite a) NegInfinity =
     (if a = 0 then NaN else if 0 < a then NegInfinity else PosInfinity)"
| "multiply PosInfinity (Finite b) =
     (if b = 0 then NaN else if 0 < b then PosInfinity else NegInfinity)"
| "multiply NegInfinity (Finite b) =
     (if b = 0 then NaN else if 0 < b then NegInfinity else PosInfinity)"
| "multiply PosInfinity PosInfinity = PosInfinity"
| "multiply PosInfinity NegInfinity = NegInfinity"
| "multiply NegInfinity PosInfinity = NegInfinity"
| "multiply NegInfinity NegInfinity = PosInfinity"

text \<open>\<^verbatim>\<open>Math.round\<close>: the nearest integer, a tie going up.\<close>

fun math_round :: "number \<Rightarrow> number" where
  "math_round (Finite x) = Finite (of_int \<lfloor>x + 1 / 2\<rfloor>)"
| "math_round n = n"

text \<open>
  \<^verbatim>\<open>Math.pow(10, y)\<close>. ECMAScript leaves the accuracy of \<^verbatim>\<open>Math.pow\<close> to the
  implementation; the powers \<open>10 ^ n\<close> for \<open>n\<close> from 0 to 22 are Numbers themselves and
  are returned exactly. For every other finite exponent the result is what the
  implementation computes, the parameter \<open>pow10\<close>.
\<close>

fun math_pow10 :: "(rat \<Rightarrow> number) \<Rightarrow> number \<Rightarrow> number" where
  "math_pow10 pow10 NaN = NaN"
| "math_pow10 pow10 PosInfinity = PosInfinity"
| "math_pow10 pow10 NegInfinity = Finite 0"
| "math_pow10 pow10 (Finite y) =
     (if of_int \<lfloor>y\<rfloor> = y \<and> 0 \<le> y \<and> y \<le> 22 then Finite (ipow 10 \<lfloor>y\<rfloor>)
      else pow10 y)"

subsection \<open>Strings to Numbers\<close>

text \<open>
  The longest prefix of \<open>s\<close> that is an unsigned decimal literal (digits, an optional
  fraction, an optional exponent; \<^verbatim>\<open>Infinity\<close> is handled by the callers): its
  mathematical value and what follows it, or \<open>None\<close> when \<open>s\<close> starts with no literal.
\<close>

definition scan_decimal :: "jsstring \<Rightarrow> (rat \<times> jsstring) option" where
  "scan_decimal s =
     (let ip = takeWhile is_digit s;
          r1 = dropWhile is_digit s;
          point = (r1 \<noteq> [] \<and> hd r1 = 0x2E);
          fp = (if point then takeWhile is_digit (tl r1) else []);
          r2 = (if point then dropWhile is_digit (tl r1) else r1)
      in if ip = [] \<and> fp = [] then None
         else
           let marked = (r2 \<noteq> [] \<and> (hd r2 = 0x65 \<or> hd r2 = 0x45));
               r3 = (if marked then tl r2 else []);
               signed = (r3 \<noteq> [] \<and> (hd r3 = 0x2B \<or> hd r3 = 0x2D));
               r4 = (if signed then tl r3 else r3);
               ed = takeWhile is_digit r4;
               ex = (if ed = [] then 0
                     else if signed \<and> hd r3 = 0x2D then - decimal ed
                     else decimal ed);
               rest = (if ed = [] then r2 else dropWhile is_digit r4)
           in Some (of_int (decimal (ip @ fp)) * ipow 10 (ex - int (length fp)), rest))"

text \<open>
  \<^verbatim>\<open>parseFloat(s)\<close>: leading white space is skipped, then the longest prefix that is a
  signed decimal literal or \<^verbatim>\<open>Infinity\<close> is converted; \<open>NaN\<close> when there is none.
  (ECMAScript allows an implementation to replace the digits after the 20th by zeros; the
  model converts every digit, as V8 does.)
\<close>

definition parseFloat :: "jsstring \<Rightarrow> number" where
  "parseFloat s =
     (let t = trimStart s;
          neg = (t \<noteq> [] \<and> hd t = 0x2D);
          u = (if t \<noteq> [] \<and> (hd t = 0x2B \<or> hd t = 0x2D) then tl t else t)
      in if startsWith u (lit ''Infinity'') then (if neg then NegInfinity else PosInfinity)
         else (case scan_decimal u of
                 None \<Rightarrow> NaN
               | Some (v, rest) \<Rightarrow> fl (if neg then - v else v)))"

text \<open>
  \<^verbatim>\<open>parseInt(s, 10)\<close>: leading white space is skipped, then a sign, then the longest run
  of decimal digits is converted; \<open>NaN\<close> when there is no digit. Nothing is raised.
\<close>

definition parseInt :: "jsstring \<Rightarrow> number" where
  "parseInt s =
     (let t = trimStart s;
          neg = (t \<noteq> [] \<and> hd t = 0x2D);
          u = (if t \<noteq> [] \<and> (hd t = 0x2B \<or> hd t = 0x2D) then tl t else t);
          ds = takeWhile is_digit u
      in if ds = [] then NaN
         else fl (if neg then - of_int (decimal ds) else of_int (decimal ds)))"

text \<open>A literal with a radix prefix (\<^verbatim>\<open>0x\<close>, \<^verbatim>\<open>0o\<close>, \<^verbatim>\<open>0b\<close>, either case): its value.\<close>

definition prefixed_literal :: "jsstring \<Rightarrow> int option" where
  "prefixed_literal t =
     (if length t < 3 \<or> hd t \<noteq> 0x30 then None
      else
        let m = t ! 1;
            r = (if m = 0x78 \<or> m = 0x58 then 16 else if m = 0x6F \<or> m = 0x4F then 8
                 else if m = 0x62 \<or> m = 0x42 then 2 else 0);
            ds = drop 2 t
        in if r \<noteq> 0 \<and> list_all (is_radix_digit r) ds then Some (radix_value r ds) else None)"

text \<open>
  \<^verbatim>\<open>Number(s)\<close> for a string: white space is trimmed at both ends; the empty string is
  0; the whole rest has to be a numeric literal, or the result is \<open>NaN\<close>.
\<close>

definition toNumber :: "jsstring \<Rightarrow> number" where
  "toNumber s =
     (let t = trim s
      in if t = [] then Finite 0
         else (case prefixed_literal t of
                 Some n \<Rightarrow> fl (of_int n)
               | None \<Rightarrow>
                   let neg = (hd t = 0x2D);
                       u = (if hd t = 0x2B \<or> hd t = 0x2D then tl t else t)
                   in if u = lit ''Infinity'' then (if neg then NegInfinity else PosInfinity)
                      else (case scan_decimal u of
                              Some (v, []) \<Rightarrow> fl (if neg then - v else v)
                            | _ \<Rightarrow> NaN)))"

section \<open>BigInt\<close>

datatype error = SyntaxError | RangeError

text \<open>\<^verbatim>\<open>BigInt(s)\<close> for a string: a SyntaxError unless the trimmed string is empty, an
  optionally signed run of decimal digits, or an unsigned literal with a radix prefix.\<close>

definition stringToBigInt :: "jsstring \<Rightarrow> error + int" where
  "stringToBigInt s =
     (let t = trim s
      in if t = [] then Inr 0
         else (case prefixed_literal t of
                 Some n \<Rightarrow> Inr n
               | None \<Rightarrow>
                   let neg = (hd t = 0x2D);
                       u = (if hd t = 0x2B \<or> hd t = 0x2D then tl t else t)
                   in if u \<noteq> [] \<and> list_all is_digit u
                      then Inr (if neg then - decimal u else decimal u)
                      else Inl SyntaxError))"

text \<open>\<^verbatim>\<open>BigInt(n)\<close> for a Number: a RangeError unless \<open>n\<close> is an integer.\<close>

fun numberToBigInt :: "number \<Rightarrow> error + int" where
  "numberToBigInt (Finite x) = (if of_int \<lfloor>x\<rfloor> = x then Inr \<lfloor>x\<rfloor> else Inl RangeError)"
| "numberToBigInt n = Inl RangeError"

text \<open>The decimal digits of a BigInt, as \<^verbatim>\<open>toString\<close> writes them.\<close>

function show_nat :: "int \<Rightarrow> jsstring" where
  "show_nat n = (if n < 10 then [of_int (0x30 + n)]
                 else show_nat (n div 10) @ [of_int (0x30 + n mod 10)])"
  by pat_completeness auto
termination
  by (relation "measure nat") auto

declare show_nat.simps [simp del]

definition show_int :: "int \<Rightarrow> jsstring" where
  "show_int i = (if i < 0 then 0x2D # show_nat (- i) else show_nat i)"

section \<open>Field coercion\<close>

text \<open>\<^verbatim>\<open>parseScientificBigInt\<close> returns the empty string or a BigInt, or throws.\<close>

datatype bigint_or_empty = EmptyString | BigIntValue int

fun toString :: "bigint_or_empty \<Rightarrow> jsstring" where
  "toString EmptyString = []"
| "toString (BigIntValue i) = show_int i"

definition parseScientificBigInt :: "(rat \<Rightarrow> number) \<Rightarrow> jsstring \<Rightarrow> error + bigint_or_empty" where
  "parseScientificBigInt pow10 str0 =
     (if str0 = [] then Inr EmptyString
      else
        let str = trim str0
        in if \<not> includes_unit str 0x65 \<and> \<not> includes_unit str 0x45
           then map_sum id BigIntValue (stringToBigInt str)
           else
             let parts = split_on 0x65 (toLowerCase str);
                 coeff = parts ! 0;
                 exp = parts ! 1;
                 multiplier = math_pow10 pow10 (toNumber exp)
             in map_sum id BigIntValue
                  (numberToBigInt (math_round (multiply (parseFloat coeff) multiplier))))"

datatype field_type = TypeInt | TypeFloat | TypeBool | TypeBigInt | TypeStr | TypeOther

datatype jsvalue = Null | Num number | Boolean bool | Str jsstring

text \<open>
  \<^verbatim>\<open>parseValue\<close> of \<^verbatim>\<open>index2.js\<close> (the same text in the other Kafka agents). The value is
  a field of the parsed row: a string, or \<^verbatim>\<open>undefined\<close> (\<open>None\<close>) when the row has no
  such field. Whatever is thrown inside the \<^verbatim>\<open>try\<close> becomes \<^verbatim>\<open>null\<close>.
\<close>

definition parseValue :: "(rat \<Rightarrow> number) \<Rightarrow> jsstring option \<Rightarrow> field_type \<Rightarrow> jsvalue" where
  "parseValue pow10 value type =
     (case value of
        None \<Rightarrow> Null
      | Some v \<Rightarrow>
          if v = [] then Null
          else (case type of
                  TypeInt \<Rightarrow> Num (parseInt v)
                | TypeFloat \<Rightarrow> Num (parseFloat v)
                | TypeBool \<Rightarrow> Boolean (toLowerCase v = lit ''true'' \<or> v = lit ''1'')
                | TypeBigInt \<Rightarrow>
                    (case parseScientificBigInt pow10 v of
                       Inl e \<Rightarrow> Null
                     | Inr r \<Rightarrow> Str (toString r))
                | _ \<Rightarrow> Str v))"

text \<open>
  \<^verbatim>\<open>parseValue\<close> of \<^verbatim>\<open>server.js\<close>. An empty cell gives the empty string. The \<^verbatim>\<open>bool\<close> case
  evaluates its expression and has no \<^verbatim>\<open>return\<close>: control falls through to the
  \<^verbatim>\<open>BigInt\<close> case.
\<close>

definition parseValue_server :: "(rat \<Rightarrow> number) \<Rightarrow> jsstring option \<Rightarrow> field_type \<Rightarrow> jsvalue" where
  "parseValue_server pow10 value type =
     (case value of
        None \<Rightarrow> Str []
      | Some v \<Rightarrow>
          if trim v = [] then Str []
          else (case type of
                  TypeInt \<Rightarrow> Num (parseInt v)
                | TypeFloat \<Rightarrow> Num (parseFloat v)
                | TypeBool \<Rightarrow>
                    (case parseScientificBigInt pow10 v of
                       Inl e \<Rightarrow> Null
                     | Inr r \<Rightarrow> Str (toString r))
                | TypeBigInt \<Rightarrow>
                    (case parseScientificBigInt pow10 v of
                       Inl e \<Rightarrow> Null
                     | Inr r \<Rightarrow> Str (toString r))
                | _ \<Rightarrow> Str v))"



section \<open>Decoding a buffer\<close>

text \<open>
  \<^verbatim>\<open>buffer.toString()\<close> decodes the bytes as UTF-8. A code point above \<open>0xFFFF\<close> becomes
  a surrogate pair; a byte that cannot continue or start a sequence, and a sequence cut
  off by the end of the buffer, become \<open>U+FFFD\<close>. The decoder keeps the number of
  continuation bytes still needed, the code point so far and the range allowed for the
  next byte.
\<close>

definition code_point_units :: "int \<Rightarrow> jsstring" where
  "code_point_units cp =
     (if cp < 0x10000 then [of_int cp]
      else [of_int (0xD800 + (cp - 0x10000) div 0x400),
            of_int (0xDC00 + (cp - 0x10000) mod 0x400)])"

function utf8 :: "nat \<Rightarrow> int \<Rightarrow> byte \<Rightarrow> byte \<Rightarrow> byte list \<Rightarrow> jsstring" where
  "utf8 needed cp lo hi [] = (if needed = 0 then [] else [0xFFFD])"
| "utf8 needed cp lo hi (b # bs) =
     (if needed = 0 then
        (if b \<le> 0x7F then ucast b # utf8 0 0 0x80 0xBF bs
         else if 0xC2 \<le> b \<and> b \<le> 0xDF then utf8 1 (uint b mod 0x20) 0x80 0xBF bs
         else if 0xE0 \<le> b \<and> b \<le> 0xEF then
           utf8 2 (uint b mod 0x10) (if b = 0xE0 then 0xA0 else 0x80)
             (if b = 0xED then 0x9F else 0xBF) bs
         else if 0xF0 \<le> b \<and> b \<le> 0xF4 then
           utf8 3 (uint b mod 8) (if b = 0xF0 then 0x90 else 0x80)
             (if b = 0xF4 then 0x8F else 0xBF) bs
         else 0xFFFD # utf8 0 0 0x80 0xBF bs)
      else if b < lo \<or> hi < b then 0xFFFD # utf8 0 0 0x80 0xBF (b # bs)
      else if needed = 1 then
        code_point_units (cp * 64 + uint b mod 64) @ utf8 0 0 0x80 0xBF bs
      else utf8 (needed - 1) (cp * 64 + uint b mod 64) 0x80 0xBF bs)"
  by pat_completeness auto
termination
  by (relation "measure (\<lambda>(needed, cp, lo, hi, bs). 2 * length bs + (if needed = 0 then 0 else 1))")
     auto

definition buffer_toString :: "byte list \<Rightarrow> jsstring" where
  "buffer_toString bs = utf8 0 0 0x80 0xBF bs"

section \<open>The reader, the mapper and the publisher\<close>

text \<open>
  What lies outside the repository is a parameter of the model:
  \<^item> \<open>parseCsvRow\<close>: the promise around fast-csv's \<^verbatim>\<open>parseString\<close>. It resolves with the row
    (a mapping from header to field), rejects, or stays pending for ever: the source
    listens to \<^verbatim>\<open>data\<close> and \<^verbatim>\<open>error\<close> only.
  \<^item> \<open>randomUUID\<close>: the identifier the \<open>n\<close>-th call returns.
  \<^item> \<open>send\<close>: whether the \<open>n\<close>-th call of \<^verbatim>\<open>producer.send\<close> resolves (\<open>True\<close>) or rejects.
  \<^item> \<open>pow10\<close>: \<^verbatim>\<open>Math.pow(10, y)\<close> where ECMAScript does not fix it.
  \<^verbatim>\<open>CONFIG.chunkSize\<close> and \<^verbatim>\<open>CONFIG.batchSize\<close> are integers read from the environment, and
  the two tables are the agent's schema.
\<close>

datatype 'a settled = Resolved 'a | Rejected | Pending

type_synonym row = "jsstring \<rightharpoonup> jsstring"
type_synonym mapped = "jsstring \<rightharpoonup> jsvalue"

record config =
  chunkSize :: int
  batchSize :: int
  HEADER_MAPPING :: "(jsstring \<times> jsstring) list"
  FIELD_TYPES :: "(jsstring \<times> field_type) list"
  parseCsvRow :: "jsstring \<Rightarrow> row settled"
  randomUUID :: "nat \<Rightarrow> jsstring"
  send :: "nat \<Rightarrow> bool"
  pow10 :: "rat \<Rightarrow> number"

datatype log_entry = Published nat | KafkaError | ParseError | FileReadError

text \<open>
  The module's variables (\<open>headerParsed\<close>, \<open>batch\<close>, \<open>partialLine\<close>, \<open>offset\<close>) and what the
  pass does to the world: the batches the bus accepted (\<open>delivered\<close>), the content of the
  offset file (\<open>saved\<close>), the console, and the counters of the calls to \<open>randomUUID\<close> and
  \<open>send\<close>. \<open>lines\<close> records every line the \<^verbatim>\<open>for\<close> loop has iterated over.
\<close>

record state =
  headerParsed :: bool
  batch :: "mapped list"
  partialLine :: jsstring
  offset :: nat
  uuids :: nat
  sends :: nat
  delivered :: "mapped list list"
  saved :: "nat option"
  console :: "log_entry list"
  lines :: "jsstring list"

definition mapRow :: "config \<Rightarrow> nat \<Rightarrow> row \<Rightarrow> mapped" where
  "mapRow cfg n row =
     (foldl
        (\<lambda>m (csvHeader, dbField).
           m(dbField \<mapsto>
               parseValue (pow10 cfg) (row csvHeader)
                 (case map_of (FIELD_TYPES cfg) csvHeader of Some t \<Rightarrow> t | None \<Rightarrow> TypeStr)))
        Map.empty (HEADER_MAPPING cfg))
     (lit ''_uuid'' \<mapsto> Str (randomUUID cfg n))"

definition publishBatch :: "config \<Rightarrow> state \<Rightarrow> state" where
  "publishBatch cfg s =
     (if length (batch s) = 0 then s
      else if send cfg (sends s)
      then s\<lparr>sends := sends s + 1,
             delivered := delivered s @ [batch s],
             console := console s @ [Published (length (batch s))],
             batch := []\<rparr>
      else s\<lparr>sends := sends s + 1,
             console := console s @ [KafkaError],
             batch := []\<rparr>)"

text \<open>The \<^verbatim>\<open>for\<close> loop over the complete lines of one chunk; \<open>None\<close> when an awaited
  promise never settles, so that the pass never goes on.\<close>

fun processLines :: "config \<Rightarrow> state \<Rightarrow> jsstring list \<Rightarrow> state option" where
  "processLines cfg s [] = Some s"
| "processLines cfg s (line # rest) =
     (let s0 = s\<lparr>lines := lines s @ [line]\<rparr>
      in if \<not> headerParsed s0 \<and> startsWith line (lit ''Membr id'')
         then processLines cfg (s0\<lparr>headerParsed := True\<rparr>) rest
         else (case parseCsvRow cfg line of
                 Pending \<Rightarrow> None
               | Rejected \<Rightarrow> processLines cfg (s0\<lparr>console := console s0 @ [ParseError]\<rparr>) rest
               | Resolved parsed \<Rightarrow>
                   let s1 = s0\<lparr>batch := batch s0 @ [mapRow cfg (uuids s0) parsed],
                                uuids := uuids s0 + 1\<rparr>;
                       s2 = (if batchSize cfg \<le> int (length (batch s1))
                             then publishBatch cfg s1 else s1)
                   in processLines cfg s2 rest))"

text \<open>
  The \<^verbatim>\<open>while\<close> loop of \<^verbatim>\<open>readFile\<close> over the content of the file, which has \<^verbatim>\<open>stat.size\<close>
  bytes. \<^verbatim>\<open>Buffer.alloc\<close> throws for a negative size, which ends the loop in the \<^verbatim>\<open>catch\<close>
  of \<^verbatim>\<open>readFile\<close>; a read of no bytes breaks out of it.
\<close>

datatype loop_end = Completed state | Threw state | Stuck

function readLoop :: "config \<Rightarrow> byte list \<Rightarrow> state \<Rightarrow> nat \<Rightarrow> loop_end" where
  "readLoop cfg content s position =
     (if position < length content then
        (let remaining = int (length content) - int position;
             readSize = min (chunkSize cfg) remaining
         in if readSize < 0 then Threw s
            else
              let buffer = take (nat readSize) (drop position content);
                  bytesRead = length buffer
              in if bytesRead = 0 then Completed s
                 else
                   let data = partialLine s @ buffer_toString buffer;
                       ls = split_on 0x0A data
                   in (case processLines cfg (s\<lparr>partialLine := last ls\<rparr>) (butlast ls) of
                         None \<Rightarrow> Stuck
                       | Some s' \<Rightarrow>
                           readLoop cfg content (s'\<lparr>offset := position + bytesRead\<rparr>)
                             (position + bytesRead)))
      else Completed s)"
  by pat_completeness auto
termination
  by (relation "measure (\<lambda>(cfg, content, s, position). length content - position)") auto

declare readLoop.simps [simp del]

text \<open>
  One pass. The file is its content, or \<open>None\<close> when there is no such file: then
  \<^verbatim>\<open>stat\<close> throws outside the \<^verbatim>\<open>try\<close> and the pass rejects. \<^verbatim>\<open>saveOffset\<close> overwrites the
  offset file.
\<close>

datatype 'a outcome = Returned 'a | Rejects | Hangs

definition saveOffset :: "nat \<Rightarrow> state \<Rightarrow> state" where
  "saveOffset n s = s\<lparr>saved := Some n\<rparr>"

definition readFile :: "config \<Rightarrow> byte list option \<Rightarrow> state \<Rightarrow> state outcome" where
  "readFile cfg file s =
     (case file of
        None \<Rightarrow> Rejects
      | Some content \<Rightarrow>
          if length content = offset s then Returned s
          else (case readLoop cfg content s (offset s) of
                  Stuck \<Rightarrow> Hangs
                | Threw s' \<Rightarrow> Returned (s'\<lparr>console := console s' @ [FileReadError]\<rparr>)
                | Completed s' \<Rightarrow>
                    (let s'' = publishBatch cfg s' in Returned (saveOffset (offset s'') s''))))"

text \<open>
  The lines the \<^verbatim>\<open>while\<close> loop hands to the \<^verbatim>\<open>for\<close> loop, chunk after chunk, and the tail it
  carries when it ends: the loop of \<^verbatim>\<open>readFile\<close> for a positive chunk size, without what is
  done to the lines.
\<close>

function reassemble :: "int \<Rightarrow> byte list \<Rightarrow> jsstring \<Rightarrow> nat \<Rightarrow> jsstring list \<times> jsstring" where
  "reassemble chunk content partial position =
     (if position < length content \<and> 0 < chunk then
        (let readSize = nat (min chunk (int (length content) - int position));
             ls = split_on 0x0A (partial @ buffer_toString (take readSize (drop position content)))
         in case reassemble chunk content (last ls) (position + readSize) of
              (later, tail) \<Rightarrow> (butlast ls @ later, tail))
      else ([], partial))"
  by pat_completeness auto
termination
  by (relation "measure (\<lambda>(chunk, content, partial, position). length content - position)") auto

declare reassemble.simps [simp del]

section \<open>The poll timer\<close>

text \<open>
  \<^verbatim>\<open>startPolling\<close> installs a timer callback. Between two of its steps only two things
  happen to the guard: the timer fires (\<open>Tick\<close>), or the pass the callback awaits settles
  (\<open>Settle\<close>), after which \<^verbatim>\<open>finally\<close> clears the flag. \<open>running\<close> counts the passes
  that have been started and have not settled, \<open>started\<close> all passes started, \<open>skipped\<close>
  the ticks that returned at the guard.
\<close>

datatype event = Tick | Settle

record poller =
  isProcessing :: bool
  running :: nat
  started :: nat
  skipped :: nat

definition poller_init :: poller where
  "poller_init = \<lparr>isProcessing = False, running = 0, started = 0, skipped = 0\<rparr>"

fun poll_step :: "poller \<Rightarrow> event \<Rightarrow> poller" where
  "poll_step p Tick =
     (if isProcessing p then p\<lparr>skipped := skipped p + 1\<rparr>
      else p\<lparr>isProcessing := True, running := running p + 1, started := started p + 1\<rparr>)"
| "poll_step p Settle =
     (if running p = 0 then p
      else p\<lparr>running := running p - 1, isProcessing := False\<rparr>)"

definition startPolling :: "event list \<Rightarrow> poller" where
  "startPolling evs = foldl poll_step poller_init evs"

section \<open>An agent for the examples\<close>

text \<open>
  The schema of the end-to-end scenarios: columns \<^verbatim>\<open>A\<close>, \<^verbatim>\<open>B\<close>, \<^verbatim>\<open>C\<close>, all \<^verbatim>\<open>int\<close>,
  separated by commas. The parser resolves for a line of three fields and stays pending
  for any other, as fast-csv does under \<^verbatim>\<open>strictColumnHandling\<close> (the row goes to
  \<^verbatim>\<open>data-invalid\<close>, which has no listener). Every send succeeds.
\<close>

definition abc_parseCsvRow :: "jsstring \<Rightarrow> row settled" where
  "abc_parseCsvRow line =
     (let fs = split_on 0x2C line
      in if length fs = 3 then Resolved (map_of (zip [lit ''A'', lit ''B'', lit ''C''] fs))
         else Pending)"

definition abc_config :: "int \<Rightarrow> config" where
  "abc_config chunk =
     \<lparr>chunkSize = chunk, batchSize = 1000,
      HEADER_MAPPING = [(lit ''A'', lit ''a''), (lit ''B'', lit ''b''), (lit ''C'', lit ''c'')],
      FIELD_TYPES = [(lit ''A'', TypeInt), (lit ''B'', TypeInt), (lit ''C'', TypeInt)],
      parseCsvRow = abc_parseCsvRow,
      randomUUID = (\<lambda>n. lit ''uuid''),
      send = (\<lambda>n. True),
      pow10 = (\<lambda>y. NaN)\<rparr>"

definition fresh :: state where
  "fresh = \<lparr>headerParsed = False, batch = [], partialLine = [], offset = 0, uuids = 0,
            sends = 0, delivered = [], saved = None, console = [], lines = []\<rparr>"

section \<open>Properties\<close>

subsection \<open>The publisher\<close>

text \<open>
  C7. After every call of \<open>publishBatch\<close> the accumulator is empty, whether the send
  resolved or rejected. When the send of a non-empty batch rejects, the batch is not
  delivered and not kept, \<^verbatim>\<open>send\<close> has been called once, and the only trace is one error
  line on the console; nothing else changes, so the pass continues.
\<close>

theorem publishBatch_drops_batch:
  "batch (publishBatch cfg s) = []
   \<and> (batch s \<noteq> [] \<and> \<not> send cfg (sends s) \<longrightarrow>
        delivered (publishBatch cfg s) = delivered s
        \<and> sends (publishBatch cfg s) = sends s + 1
        \<and> console (publishBatch cfg s) = console s @ [KafkaError])
   \<and> (batch s \<noteq> [] \<and> send cfg (sends s) \<longrightarrow>
        delivered (publishBatch cfg s) = delivered s @ [batch s]
        \<and> sends (publishBatch cfg s) = sends s + 1
        \<and> console (publishBatch cfg s) = console s @ [Published (length (batch s))])
   \<and> offset (publishBatch cfg s) = offset s
   \<and> partialLine (publishBatch cfg s) = partialLine s
   \<and> saved (publishBatch cfg s) = saved s
   \<and> lines (publishBatch cfg s) = lines s"
  by (simp add: publishBatch_def)

theorem publishBatch_drops_batch_witness:
  "batch (fresh\<lparr>batch := [Map.empty]\<rparr>) \<noteq> []
   \<and> \<not> send ((abc_config 1)\<lparr>send := (\<lambda>n. False)\<rparr>) (sends (fresh\<lparr>batch := [Map.empty]\<rparr>))
   \<and> batch (publishBatch ((abc_config 1)\<lparr>send := (\<lambda>n. False)\<rparr>) (fresh\<lparr>batch := [Map.empty]\<rparr>)) = []
   \<and> delivered (publishBatch ((abc_config 1)\<lparr>send := (\<lambda>n. False)\<rparr>) (fresh\<lparr>batch := [Map.empty]\<rparr>)) = []
   \<and> console (publishBatch ((abc_config 1)\<lparr>send := (\<lambda>n. False)\<rparr>) (fresh\<lparr>batch := [Map.empty]\<rparr>)) = [KafkaError]"
  using publishBatch_drops_batch [of "(abc_config 1)\<lparr>send := (\<lambda>n. False)\<rparr>" "fresh\<lparr>batch := [Map.empty]\<rparr>"]
  by (simp add: fresh_def abc_config_def)

subsection \<open>The poll timer\<close>

lemma poll_step_invariant:
  "running p \<le> 1 \<and> (isProcessing p \<longleftrightarrow> running p = 1) \<Longrightarrow>
   running (poll_step p e) \<le> 1 \<and> (isProcessing (poll_step p e) \<longleftrightarrow> running (poll_step p e) = 1)"
  by (cases e) auto

lemma startPolling_invariant:
  "running (startPolling evs) \<le> 1
   \<and> (isProcessing (startPolling evs) \<longleftrightarrow> running (startPolling evs) = 1)"
proof (induction evs rule: rev_induct)
  case Nil
  show ?case by (simp add: startPolling_def poller_init_def)
next
  case (snoc e evs)
  have "startPolling (evs @ [e]) = poll_step (startPolling evs) e"
    by (simp add: startPolling_def)
  with snoc poll_step_invariant [of "startPolling evs" e] show ?case by simp
qed

text \<open>
  C8. Whatever the order of timer ticks and settled passes, at most one pass of
  \<open>readFile\<close> is running, and the flag is set exactly while one is. A tick that fires
  while a pass is running starts nothing and leaves nothing behind to run later: it is
  counted as skipped and the guard is as before.
\<close>

theorem startPolling_single_pass:
  "running (startPolling evs) \<le> 1
   \<and> (isProcessing (startPolling evs) \<longleftrightarrow> running (startPolling evs) = 1)
   \<and> (isProcessing (startPolling evs) \<longrightarrow>
        startPolling (evs @ [Tick]) = (startPolling evs)\<lparr>skipped := skipped (startPolling evs) + 1\<rparr>
        \<and> running (startPolling (evs @ [Tick])) = running (startPolling evs)
        \<and> started (startPolling (evs @ [Tick])) = started (startPolling evs))"
proof -
  have step: "startPolling (evs @ [Tick]) = poll_step (startPolling evs) Tick"
    by (simp add: startPolling_def)
  show ?thesis
    using startPolling_invariant [of evs] by (simp add: step)
qed

theorem startPolling_single_pass_witness:
  "isProcessing (startPolling [Tick])
   \<and> running (startPolling [Tick, Tick]) = 1
   \<and> started (startPolling [Tick, Tick]) = 1
   \<and> skipped (startPolling [Tick, Tick]) = 1"
  using startPolling_single_pass [of "[Tick]"]
  by (simp add: startPolling_def poller_init_def)

subsection \<open>The reader\<close>

lemma offset_publishBatch [simp]: "offset (publishBatch cfg s) = offset s"
  by (simp add: publishBatch_def)

lemma partialLine_publishBatch [simp]: "partialLine (publishBatch cfg s) = partialLine s"
  by (simp add: publishBatch_def)

lemma saved_publishBatch [simp]: "saved (publishBatch cfg s) = saved s"
  by (simp add: publishBatch_def)

lemma lines_publishBatch [simp]: "lines (publishBatch cfg s) = lines s"
  by (simp add: publishBatch_def)

lemma readLoop_at_end:
  "length content \<le> position \<Longrightarrow> readLoop cfg content s position = Completed s"
  by (simp add: readLoop.simps)

text \<open>
  C2 (as the code has it). When the file is shorter than the stored offset, the pass
  reads nothing and iterates over no line: it flushes the pending batch and writes the
  unchanged offset to the offset file. The offset, the partial line and the header flag
  stay as they were; the pass returns.
\<close>

theorem readFile_shorter_file:
  assumes "length content < offset s"
  shows "readFile cfg (Some content) s = Returned (saveOffset (offset s) (publishBatch cfg s))
         \<and> offset (saveOffset (offset s) (publishBatch cfg s)) = offset s
         \<and> partialLine (saveOffset (offset s) (publishBatch cfg s)) = partialLine s
         \<and> lines (saveOffset (offset s) (publishBatch cfg s)) = lines s
         \<and> saved (saveOffset (offset s) (publishBatch cfg s)) = Some (offset s)
         \<and> FileReadError \<notin> set (console (saveOffset (offset s) (publishBatch cfg s))) - set (console s)"
  using assms by (auto simp: readFile_def readLoop_at_end saveOffset_def publishBatch_def)

theorem readFile_shorter_file_witness:
  "length (ascii ''7,8,9'' @ [0x0A]) < offset (fresh\<lparr>offset := 20\<rparr>)
   \<and> readFile (abc_config 65536) (Some (ascii ''7,8,9'' @ [0x0A])) (fresh\<lparr>offset := 20\<rparr>)
       = Returned (fresh\<lparr>offset := 20, saved := Some 20\<rparr>)"
  using readFile_shorter_file [of "ascii ''7,8,9'' @ [0x0A]" "fresh\<lparr>offset := 20\<rparr>" "abc_config 65536"]
  by (simp add: ascii_def fresh_def saveOffset_def publishBatch_def)

text \<open>The claim as the specification has it fails: no read from offset 0 takes place
  (no line is iterated over, nothing is delivered) and nothing is logged.\<close>

theorem readFile_shorter_file_counterexample:
  "map_outcome lines (readFile (abc_config 65536) (Some (ascii ''7,8,9'' @ [0x0A])) (fresh\<lparr>offset := 20\<rparr>))
     = Returned []
   \<and> map_outcome console (readFile (abc_config 65536) (Some (ascii ''7,8,9'' @ [0x0A])) (fresh\<lparr>offset := 20\<rparr>))
     = Returned []
   \<and> map_outcome offset (readFile (abc_config 65536) (Some (ascii ''7,8,9'' @ [0x0A])) (fresh\<lparr>offset := 20\<rparr>))
     = Returned 20
   \<and> map_outcome delivered (readFile (abc_config 65536) (Some (ascii ''7,8,9'' @ [0x0A])) (fresh\<lparr>offset := 20\<rparr>))
     = Returned []"
  by (simp add: readFile_def readLoop_at_end ascii_def fresh_def saveOffset_def publishBatch_def)

lemma split_on_not_Nil [simp]: "split_on c xs \<noteq> []"
  by (induction xs) (auto split: list.splits)

lemma split_on_Cons_other:
  "x \<noteq> c \<Longrightarrow> split_on c (x # xs) = (x # hd (split_on c xs)) # tl (split_on c xs)"
  by (cases "split_on c xs") auto

lemma split_on_no_separator: "c \<notin> set xs \<Longrightarrow> split_on c xs = [xs]"
  by (induction xs) (auto simp: split_on_Cons_other)

lemma last_split_on_no_separator: "c \<notin> set (last (split_on c xs))"
proof (induction xs)
  case Nil
  show ?case by simp
next
  case (Cons x xs)
  show ?case
  proof (cases "x = c")
    case True
    with Cons show ?thesis by simp
  next
    case False
    obtain l ls where sp: "split_on c xs = l # ls"
      by (cases "split_on c xs") auto
    with Cons False show ?thesis by (cases ls) auto
  qed
qed

text \<open>Splitting a text that arrives in two pieces: the complete lines of the first piece,
  then the split of its unfinished tail followed by the second piece.\<close>

lemma split_on_append:
  "split_on c (xs @ ys) = butlast (split_on c xs) @ split_on c (last (split_on c xs) @ ys)"
proof (induction xs)
  case Nil
  show ?case by simp
next
  case (Cons x xs)
  show ?case
  proof (cases "x = c")
    case True
    with Cons show ?thesis by simp
  next
    case False
    obtain l ls where sp: "split_on c xs = l # ls"
      by (cases "split_on c xs") auto
    show ?thesis
    proof (cases ls)
      case Nil
      with sp False Cons show ?thesis by simp
    next
      case (Cons l' ls')
      with sp False Cons.IH show ?thesis by simp
    qed
  qed
qed

lemma butlast_split_on_append:
  "butlast (split_on c (xs @ ys))
     = butlast (split_on c xs) @ butlast (split_on c (last (split_on c xs) @ ys))"
  by (simp add: split_on_append [of c xs ys] butlast_append)

lemma last_split_on_append:
  "last (split_on c (xs @ ys)) = last (split_on c (last (split_on c xs) @ ys))"
  by (simp add: split_on_append [of c xs ys])

lemma utf8_single_bytes:
  "\<forall>b \<in> set bs. b \<le> 0x7F \<Longrightarrow> utf8 0 cp lo hi bs = map ucast bs"
  by (induction bs arbitrary: cp lo hi) auto

lemma buffer_toString_single_bytes:
  "\<forall>b \<in> set bs. b \<le> 0x7F \<Longrightarrow> buffer_toString bs = map ucast bs"
  by (simp add: buffer_toString_def utf8_single_bytes)

lemma processLines_keeps:
  "processLines cfg s ls = Some s' \<Longrightarrow>
   offset s' = offset s \<and> partialLine s' = partialLine s \<and> saved s' = saved s
   \<and> lines s' = lines s @ ls"
proof (induction ls arbitrary: s)
  case Nil
  then show ?case by simp
next
  case (Cons line rest)
  show ?case
  proof (cases "\<not> headerParsed s \<and> startsWith line (lit ''Membr id'')")
    case True
    with Cons.prems
    have "processLines cfg (s\<lparr>lines := lines s @ [line], headerParsed := True\<rparr>) rest = Some s'"
      by (simp add: Let_def)
    from Cons.IH [OF this] show ?thesis by simp
  next
    case False
    show ?thesis
    proof (cases "parseCsvRow cfg line")
      case Pending
      with False Cons.prems show ?thesis by (auto simp: Let_def)
    next
      case Rejected
      with False Cons.prems
      have "processLines cfg (s\<lparr>lines := lines s @ [line], console := console s @ [ParseError]\<rparr>) rest = Some s'"
        by (auto simp: Let_def)
      from Cons.IH [OF this] show ?thesis by simp
    next
      case (Resolved parsed)
      define s1 where "s1 = s\<lparr>lines := lines s @ [line],
                              batch := batch s @ [mapRow cfg (uuids s) parsed],
                              uuids := uuids s + 1\<rparr>"
      define s2 where "s2 = (if batchSize cfg \<le> int (length (batch s1))
                             then publishBatch cfg s1 else s1)"
      from Resolved False Cons.prems have "processLines cfg s2 rest = Some s'"
        by (auto simp: Let_def s1_def s2_def)
      from Cons.IH [OF this] show ?thesis
        by (simp add: s2_def s1_def)
    qed
  qed
qed

text \<open>One round of the \<^verbatim>\<open>while\<close> loop, for a chunk size that is positive.\<close>

lemma readLoop_round:
  assumes "position < length content" and "0 < chunkSize cfg"
  shows "readLoop cfg content s position =
           (let n = min (nat (chunkSize cfg)) (length content - position);
                ls = split_on 0x0A (partialLine s @ buffer_toString (take n (drop position content)))
            in case processLines cfg (s\<lparr>partialLine := last ls\<rparr>) (butlast ls) of
                 None \<Rightarrow> Stuck
               | Some s' \<Rightarrow> readLoop cfg content (s'\<lparr>offset := position + n\<rparr>) (position + n))"
proof -
  define n where "n = min (nat (chunkSize cfg)) (length content - position)"
  have rs: "min (chunkSize cfg) (int (length content) - int position) = int n"
    using assms by (simp add: n_def min_def) linarith
  have len: "length (take n (drop position content)) = n"
    by (simp add: n_def)
  have pos: "0 < n"
    using assms by (simp add: n_def)
  have "readLoop cfg content s position =
          (case processLines cfg
                  (s\<lparr>partialLine := last (split_on 0x0A (partialLine s @ buffer_toString (take n (drop position content))))\<rparr>)
                  (butlast (split_on 0x0A (partialLine s @ buffer_toString (take n (drop position content))))) of
             None \<Rightarrow> Stuck
           | Some s' \<Rightarrow> readLoop cfg content (s'\<lparr>offset := position + n\<rparr>) (position + n))"
    using assms(1) pos
    by (subst readLoop.simps) (simp only: rs Let_def nat_int len if_True, simp)
  then show ?thesis
    unfolding n_def Let_def .
qed


lemma readLoop_Completed:
  assumes "0 < chunkSize cfg"
  shows "readLoop cfg content s position = Completed s' \<Longrightarrow>
         saved s' = saved s
         \<and> (position < length content \<longrightarrow> offset s' = length content)
         \<and> (length content \<le> position \<longrightarrow> s' = s)"
proof (induction "length content - position" arbitrary: s position rule: less_induct)
  case less
  show ?case
  proof (cases "position < length content")
    case False
    with less.prems show ?thesis by (simp add: readLoop_at_end)
  next
    case True
    define n where "n = min (nat (chunkSize cfg)) (length content - position)"
    define ls where
      "ls = split_on 0x0A (partialLine s @ buffer_toString (take n (drop position content)))"
    have n: "0 < n" "position + n \<le> length content"
      using True assms by (simp_all add: n_def)
    then have dec: "length content - (position + n) < length content - position"
      using True by simp
    from less.prems obtain s1
      where s1: "processLines cfg (s\<lparr>partialLine := last ls\<rparr>) (butlast ls) = Some s1"
        and rest: "readLoop cfg content (s1\<lparr>offset := position + n\<rparr>) (position + n) = Completed s'"
      by (auto simp: readLoop_round [OF True assms] Let_def n_def [symmetric] ls_def [symmetric]
               split: option.splits)
    from processLines_keeps [OF s1] have keep: "saved s1 = saved s" by simp
    from less.hyps [OF dec rest] keep n True show ?thesis
      by (cases "position + n < length content") auto
  qed
qed



lemma reassemble_at_end:
  "length content \<le> position \<Longrightarrow> reassemble chunk content partial position = ([], partial)"
  by (simp add: reassemble.simps)

lemma reassemble_round:
  assumes "position < length content" and "0 < chunk"
  shows "reassemble chunk content partial position =
           (let n = min (nat chunk) (length content - position);
                ls = split_on 0x0A (partial @ buffer_toString (take n (drop position content)))
            in (butlast ls @ fst (reassemble chunk content (last ls) (position + n)),
                snd (reassemble chunk content (last ls) (position + n))))"
proof -
  have "nat (min chunk (int (length content) - int position))
          = min (nat chunk) (length content - position)"
    using assms by (simp add: min_def) linarith
  with assms show ?thesis
    by (subst reassemble.simps) (simp add: Let_def split: prod.splits)
qed

lemma processLines_settles_on:
  "\<forall>l \<in> set ls. parseCsvRow cfg l \<noteq> Pending \<Longrightarrow> \<exists>s'. processLines cfg s ls = Some s'"
proof (induction ls arbitrary: s)
  case Nil
  show ?case by simp
next
  case (Cons line rest)
  then have "parseCsvRow cfg line \<noteq> Pending" by simp
  with Cons show ?case
    by (cases "parseCsvRow cfg line") (auto simp: Let_def)
qed

text \<open>A pass of the loop whose lines all settle in the row parser: it completes, having
  iterated over the lines of \<open>reassemble\<close> and carrying its tail.\<close>

lemma readLoop_pass:
  assumes "0 < chunkSize cfg"
  shows "\<forall>l \<in> set (fst (reassemble (chunkSize cfg) content (partialLine s) position)).
           parseCsvRow cfg l \<noteq> Pending \<Longrightarrow>
         \<exists>s'. readLoop cfg content s position = Completed s'
           \<and> lines s' = lines s @ fst (reassemble (chunkSize cfg) content (partialLine s) position)
           \<and> partialLine s' = snd (reassemble (chunkSize cfg) content (partialLine s) position)"
proof (induction "length content - position" arbitrary: s position rule: less_induct)
  case less
  show ?case
  proof (cases "position < length content")
    case False
    then show ?thesis by (simp add: readLoop_at_end reassemble_at_end)
  next
    case True
    define n where "n = min (nat (chunkSize cfg)) (length content - position)"
    define ls where
      "ls = split_on 0x0A (partialLine s @ buffer_toString (take n (drop position content)))"
    have n: "0 < n" using True assms by (simp add: n_def)
    then have dec: "length content - (position + n) < length content - position"
      using True by simp
    have re: "reassemble (chunkSize cfg) content (partialLine s) position
                = (butlast ls @ fst (reassemble (chunkSize cfg) content (last ls) (position + n)),
                   snd (reassemble (chunkSize cfg) content (last ls) (position + n)))"
      unfolding ls_def n_def using reassemble_round [OF True assms, of "partialLine s"]
      by (simp only: Let_def)
    have round: "readLoop cfg content s position =
             (case processLines cfg (s\<lparr>partialLine := last ls\<rparr>) (butlast ls) of
                None \<Rightarrow> Stuck
              | Some s1 \<Rightarrow> readLoop cfg content (s1\<lparr>offset := position + n\<rparr>) (position + n))"
      unfolding ls_def n_def
      using readLoop_round [OF True assms, of s] by (simp only: Let_def)
    from less.prems have "\<forall>l \<in> set (butlast ls). parseCsvRow cfg l \<noteq> Pending"
      by (simp add: re)
    from processLines_settles_on [OF this] obtain s1
      where s1: "processLines cfg (s\<lparr>partialLine := last ls\<rparr>) (butlast ls) = Some s1"
      by blast
    from processLines_keeps [OF s1]
    have keep: "partialLine s1 = last ls" "lines s1 = lines s @ butlast ls"
      by simp_all
    from less.prems
    have "\<forall>l \<in> set (fst (reassemble (chunkSize cfg) content
                               (partialLine (s1\<lparr>offset := position + n\<rparr>)) (position + n))).
            parseCsvRow cfg l \<noteq> Pending"
      by (simp add: re keep)
    from less.hyps [OF dec this] obtain s'
      where "readLoop cfg content (s1\<lparr>offset := position + n\<rparr>) (position + n) = Completed s'"
        and "lines s' = lines s @ butlast ls @ fst (reassemble (chunkSize cfg) content (last ls) (position + n))"
        and "partialLine s' = snd (reassemble (chunkSize cfg) content (last ls) (position + n))"
      by (auto simp: keep)
    then show ?thesis
      by (simp add: round s1 re)
  qed
qed

lemma readFile_pass:
  assumes chunk: "0 < chunkSize cfg" and behind: "offset s \<le> length content"
    and settle: "\<forall>l \<in> set (fst (reassemble (chunkSize cfg) content (partialLine s) (offset s))).
                   parseCsvRow cfg l \<noteq> Pending"
  shows "\<exists>s'. readFile cfg (Some content) s = Returned s'
             \<and> offset s' = length content
             \<and> (length content \<noteq> offset s \<longrightarrow> saved s' = Some (length content))
             \<and> lines s' = lines s @ fst (reassemble (chunkSize cfg) content (partialLine s) (offset s))
             \<and> partialLine s' = snd (reassemble (chunkSize cfg) content (partialLine s) (offset s))"
proof (cases "length content = offset s")
  case True
  then show ?thesis
    by (simp add: readFile_def reassemble_at_end)
next
  case False
  from readLoop_pass [OF chunk settle] obtain s1
    where s1: "readLoop cfg content s (offset s) = Completed s1"
      and l1: "lines s1 = lines s @ fst (reassemble (chunkSize cfg) content (partialLine s) (offset s))"
      and p1: "partialLine s1 = snd (reassemble (chunkSize cfg) content (partialLine s) (offset s))"
    by blast
  from False behind have "offset s < length content" by simp
  with readLoop_Completed [OF chunk s1] have "offset s1 = length content" by simp
  with False s1 l1 p1 show ?thesis
    by (simp add: readFile_def Let_def saveOffset_def)
qed




text \<open>
  For content of single bytes (ASCII) the chunked loop is a refinement of splitting the
  whole text: whatever the positive chunk size, the lines handed on are exactly the
  complete lines of the carried tail followed by the unread bytes, in order, and the
  tail carried at the end is what follows the last line end.
\<close>

lemma reassemble_single_byte:
  assumes "0 < chunk" and "\<forall>b \<in> set content. b \<le> 0x7F"
  shows "0x0A \<notin> set partial \<Longrightarrow>
         reassemble chunk content partial position
           = (butlast (split_on 0x0A (partial @ map ucast (drop position content))),
              last (split_on 0x0A (partial @ map ucast (drop position content))))"
proof (induction "length content - position" arbitrary: partial position rule: less_induct)
  case less
  show ?case
  proof (cases "position < length content")
    case False
    with less.prems show ?thesis
      by (simp add: reassemble_at_end split_on_no_separator)
  next
    case True
    define n where "n = min (nat chunk) (length content - position)"
    define piece where "piece = take n (drop position content)"
    define D where "D = partial @ buffer_toString piece"
    define R :: jsstring where "R = map ucast (drop (position + n) content)"
    have n: "0 < n" using True assms(1) by (simp add: n_def)
    then have dec: "length content - (position + n) < length content - position"
      using True by simp
    have "\<forall>b \<in> set piece. b \<le> 0x7F"
      using assms(2) unfolding piece_def by (auto dest!: in_set_takeD in_set_dropD)
    then have decoded: "buffer_toString piece = map ucast piece"
      by (rule buffer_toString_single_bytes)
    have "drop (position + n) content = drop n (drop position content)"
      by (simp add: add.commute)
    then have pieces: "drop position content = piece @ drop (position + n) content"
      by (simp only: piece_def append_take_drop_id)
    have round: "reassemble chunk content partial position
                   = (butlast (split_on 0x0A D) @ fst (reassemble chunk content (last (split_on 0x0A D)) (position + n)),
                      snd (reassemble chunk content (last (split_on 0x0A D)) (position + n)))"
      unfolding D_def piece_def n_def
      using reassemble_round [OF True assms(1), of partial] by (simp only: Let_def)
    have "0x0A \<notin> set (last (split_on 0x0A D))"
      by (rule last_split_on_no_separator)
    from less.hyps [OF dec this]
    have ih: "reassemble chunk content (last (split_on 0x0A D)) (position + n)
                = (butlast (split_on 0x0A (last (split_on 0x0A D) @ R)),
                   last (split_on 0x0A (last (split_on 0x0A D) @ R)))"
      by (simp add: R_def)
    have full: "partial @ map ucast (drop position content) = D @ R"
      unfolding D_def R_def decoded by (subst pieces) simp
    show ?thesis
      unfolding full butlast_split_on_append [of _ D R] last_split_on_append [of _ D R] round ih
      by simp
  qed
qed

lemma readFile_lines_single_byte:
  assumes "0 < chunkSize cfg" and "\<forall>b \<in> set content. b \<le> 0x7F"
    and "offset s \<le> length content" and "0x0A \<notin> set (partialLine s)"
    and "\<forall>l \<in> set (butlast (split_on 0x0A (partialLine s @ buffer_toString (drop (offset s) content)))).
           parseCsvRow cfg l \<noteq> Pending"
  shows "\<exists>s'. readFile cfg (Some content) s = Returned s'
           \<and> lines s' = lines s @ butlast (split_on 0x0A (partialLine s @ buffer_toString (drop (offset s) content)))
           \<and> partialLine s' = last (split_on 0x0A (partialLine s @ buffer_toString (drop (offset s) content)))"
proof -
  have "\<forall>b \<in> set (drop (offset s) content). b \<le> 0x7F"
    using assms(2) by (auto dest: in_set_dropD)
  then have dec: "buffer_toString (drop (offset s) content) = map ucast (drop (offset s) content)"
    by (rule buffer_toString_single_bytes)
  note re = reassemble_single_byte [OF assms(1,2,4), of "offset s"]
  have "\<forall>l \<in> set (fst (reassemble (chunkSize cfg) content (partialLine s) (offset s))).
          parseCsvRow cfg l \<noteq> Pending"
    using assms(5) by (simp add: re dec)
  from readFile_pass [OF assms(1,3) this] show ?thesis
    by (auto simp: re dec)
qed

text \<open>
  C3 (the code at the failing input). Each chunk is decoded on its own, so a character
  of several bytes that a chunk boundary cuts is lost: with a chunk size of 1, the line
  of the bytes \<^verbatim>\<open>C3 A9 2C 32 2C 33\<close> (e with acute accent, then \<^verbatim>\<open>",2,3"\<close>) is iterated over
  as two replacement characters \<open>U+FFFD\<close> followed by \<^verbatim>\<open>",2,3"\<close>, while the whole content
  decoded at once and split has the line that starts with \<open>U+00E9\<close>, and so has a pass
  that reads it in one chunk.
\<close>

theorem readFile_splits_character:
  "map_outcome lines (readFile (abc_config 1) (Some [0xC3, 0xA9, 0x2C, 0x32, 0x2C, 0x33, 0x0A]) fresh)
     = Returned [[0xFFFD, 0xFFFD, 0x2C, 0x32, 0x2C, 0x33]]
   \<and> butlast (split_on 0x0A (buffer_toString [0xC3, 0xA9, 0x2C, 0x32, 0x2C, 0x33, 0x0A]))
     = [[0xE9, 0x2C, 0x32, 0x2C, 0x33]]
   \<and> map_outcome lines (readFile (abc_config 7) (Some [0xC3, 0xA9, 0x2C, 0x32, 0x2C, 0x33, 0x0A]) fresh)
     = Returned [[0xE9, 0x2C, 0x32, 0x2C, 0x33]]"
  by code_simp

subsection \<open>Field coercion\<close>

text \<open>
  C5 (the code at the failing input). \<^verbatim>\<open>parseInt\<close> throws nothing, so the \<^verbatim>\<open>catch\<close> that
  would give \<^verbatim>\<open>null\<close> is never entered: a non-numeric field of type \<^verbatim>\<open>int\<close> becomes \<open>NaN\<close>,
  and \<open>mapRow\<close> puts it in the record.
\<close>

theorem parseValue_int_non_numeric:
  "parseValue pw (Some (lit ''abc'')) TypeInt = Num NaN
   \<and> mapRow (abc_config 1) 0
         (map_of [(lit ''A'', lit ''abc''), (lit ''B'', lit ''2''), (lit ''C'', lit ''3'')]) (lit ''a'')
       = Some (Num NaN)"
  by code_simp

text \<open>
  C6 (the code at the failing input). In \<^verbatim>\<open>server.js\<close> the \<^verbatim>\<open>bool\<close> case returns what the
  \<^verbatim>\<open>BigInt\<close> case makes of the field: \<^verbatim>\<open>null\<close> for \<^verbatim>\<open>"true"\<close>, the string \<^verbatim>\<open>"1"\<close> for \<^verbatim>\<open>"1"\<close>.
\<close>

theorem parseValue_server_bool_falls_through:
  "parseValue_server pw (Some (lit ''true'')) TypeBool = Null
   \<and> parseValue_server pw (Some (lit ''1'')) TypeBool = Str (lit ''1'')"
  by code_simp

text \<open>The \<^verbatim>\<open>bool\<close> case of \<^verbatim>\<open>index2.js\<close> does return a boolean.\<close>

lemma parseValue_bool:
  "v \<noteq> [] \<Longrightarrow>
   parseValue pw (Some v) TypeBool = Boolean (toLowerCase v = lit ''true'' \<or> v = lit ''1'')"
  by (simp add: parseValue_def)

lemma digit_unit:
  assumes "0 \<le> d" and "d < 10"
  shows "is_digit (of_int (0x30 + d)) \<and> digit_value (of_int (0x30 + d)) = d"
proof -
  from assms consider "d = 0" | "d = 1" | "d = 2" | "d = 3" | "d = 4"
    | "d = 5" | "d = 6" | "d = 7" | "d = 8" | "d = 9"
    by atomize_elim arith
  then show ?thesis
    by cases (simp_all add: is_digit_def digit_value_def)
qed

lemma decimal_snoc: "decimal (ds @ [c]) = 10 * decimal ds + digit_value c"
  by (simp add: decimal_def radix_value_def)

lemma show_nat_digits:
  "0 \<le> n \<Longrightarrow> list_all is_digit (show_nat n) \<and> show_nat n \<noteq> [] \<and> decimal (show_nat n) = n"
proof (induction n rule: show_nat.induct)
  case (1 n)
  show ?case
  proof (cases "n < 10")
    case True
    with "1.prems" digit_unit [of n] show ?thesis
      by (subst (1 2 3) show_nat.simps) (simp add: decimal_def radix_value_def)
  next
    case False
    then have "0 \<le> n div 10" by simp
    with "1.IH" False
    have ih: "list_all is_digit (show_nat (n div 10))" "decimal (show_nat (n div 10)) = n div 10"
      by simp_all
    have "0 \<le> n mod 10" "n mod 10 < 10" by simp_all
    from digit_unit [OF this] ih False show ?thesis
      by (subst (1 2 3) show_nat.simps) (simp add: decimal_snoc)
  qed
qed

lemma digit_not_white_space: "is_digit c \<Longrightarrow> \<not> is_white_space c"
  by (auto simp: is_digit_def is_white_space_def word_le_nat_alt)

lemma digit_not_mark:
  "is_digit c \<Longrightarrow> c \<noteq> 0x65 \<and> c \<noteq> 0x45 \<and> c \<noteq> 0x2B \<and> c \<noteq> 0x2D
     \<and> c \<noteq> 0x78 \<and> c \<noteq> 0x58 \<and> c \<noteq> 0x6F \<and> c \<noteq> 0x4F \<and> c \<noteq> 0x62 \<and> c \<noteq> 0x42"
  by (auto simp: is_digit_def)

lemma dropWhile_keeps:
  "xs \<noteq> [] \<Longrightarrow> \<not> P (hd xs) \<Longrightarrow> dropWhile P xs = xs"
  by (cases xs) auto

lemma trim_digits:
  assumes "ds \<noteq> []" and "list_all is_digit ds"
  shows "trim ds = ds"
proof -
  from assms have "is_digit (hd ds)" "is_digit (last ds)"
    by (auto simp: list_all_iff)
  then have "\<not> is_white_space (hd ds)" "\<not> is_white_space (hd (rev ds))"
    using assms(1) by (simp_all add: digit_not_white_space hd_rev)
  with assms(1) show ?thesis
    by (simp add: trim_def dropWhile_keeps)
qed

lemma prefixed_literal_digits:
  assumes "list_all is_digit ds"
  shows "prefixed_literal ds = None"
proof (cases "length ds < 3")
  case True
  then show ?thesis by (simp add: prefixed_literal_def)
next
  case False
  then have "ds ! 1 \<in> set ds" by simp
  with assms have "is_digit (ds ! 1)" by (simp add: list_all_iff)
  from digit_not_mark [OF this] show ?thesis
    by (simp add: prefixed_literal_def Let_def)
qed

lemma stringToBigInt_digits:
  assumes "ds \<noteq> []" and "list_all is_digit ds"
  shows "stringToBigInt ds = Inr (decimal ds)"
proof -
  from assms have "is_digit (hd ds)" by (auto simp: list_all_iff)
  from digit_not_mark [OF this] assms show ?thesis
    by (simp add: stringToBigInt_def trim_digits prefixed_literal_digits Let_def)
qed

lemma decimal_nonneg: "list_all is_digit ds \<Longrightarrow> 0 \<le> decimal ds"
proof (induction ds rule: rev_induct)
  case Nil
  show ?case by (simp add: decimal_def radix_value_def)
next
  case (snoc c ds)
  then have "0 \<le> decimal ds" "is_digit c" by simp_all
  moreover from \<open>is_digit c\<close> have "0 \<le> digit_value c"
    by (simp add: is_digit_def digit_value_def word_le_def)
  ultimately show ?case by (simp add: decimal_snoc)
qed

lemma parseValue_BigInt_digits:
  assumes "ds \<noteq> []" and "list_all is_digit ds"
  shows "parseValue pw (Some ds) TypeBigInt = Str (show_int (decimal ds))"
proof -
  have "\<forall>c \<in> set ds. c \<noteq> 0x65 \<and> c \<noteq> 0x45"
    using assms(2) digit_not_mark by (auto simp: list_all_iff)
  then have "\<not> includes_unit ds 0x65" "\<not> includes_unit ds 0x45"
    by (auto simp: includes_unit_def)
  with assms show ?thesis
    by (simp add: parseValue_def parseScientificBigInt_def trim_digits stringToBigInt_digits)
qed



lemma bit_length_bound: "0 \<le> m \<Longrightarrow> m < 2 ^ j \<Longrightarrow> bit_length m \<le> int j"
proof (induction j arbitrary: m)
  case 0
  then have "m = 0" by simp
  then show ?case by (simp add: bit_length.simps)
next
  case (Suc j)
  show ?case
  proof (cases "m \<le> 0")
    case True
    then show ?thesis by (simp add: bit_length.simps)
  next
    case False
    from Suc.prems have "0 \<le> m div 2" "m div 2 < 2 ^ j" by simp_all
    from Suc.IH [OF this] False show ?thesis
      by (subst bit_length.simps) simp
  qed
qed

lemma binade_of_int_bound:
  assumes "0 < m" and "m < 2 ^ 53"
  shows "binade (of_int m) \<le> 52"
proof -
  from assms have "bit_length m \<le> 53"
    using bit_length_bound [of m 53] by simp
  moreover have "bit_length 1 = 1"
    by (simp add: bit_length.simps)
  ultimately show ?thesis
    by (simp add: binade_def Let_def)
qed

lemma round_half_even_of_int [simp]: "round_half_even (of_int k) = k"
  by (simp add: round_half_even_def)

lemma ipow_2_nonpositive: "p \<le> 0 \<Longrightarrow> ipow 2 p = 1 / 2 ^ nat (- p)"
  by (cases "p = 0") (simp_all add: ipow_def)

text \<open>Every integer below \<open>2 ^ 53\<close> in magnitude is a Number.\<close>

lemma fl_of_int:
  assumes "\<bar>n\<bar> < 2 ^ 53"
  shows "fl (of_int n) = Finite (of_int n)"
proof (cases "n = 0")
  case True
  then show ?thesis by (simp add: fl_def)
next
  case False
  define p where "p = max (binade \<bar>of_int n\<bar> - 52) (- 1074)"
  have "\<bar>of_int n :: rat\<bar> = of_int \<bar>n\<bar>" by simp
  moreover have "binade (of_int \<bar>n\<bar>) \<le> 52"
    using binade_of_int_bound [of "\<bar>n\<bar>"] assms False by simp
  ultimately have p: "p \<le> 0" by (simp add: p_def)
  have pow: "ipow 2 p = 1 / 2 ^ nat (- p)"
    using p by (rule ipow_2_nonpositive)
  have "of_int n / ipow 2 p = (of_int (n * 2 ^ nat (- p)) :: rat)"
    by (simp add: pow)
  then have "round_half_even (of_int n / ipow 2 p) = n * 2 ^ nat (- p)"
    by (simp only: round_half_even_of_int)
  then have r: "of_int (round_half_even (of_int n / ipow 2 p)) * ipow 2 p = (of_int n :: rat)"
    by (simp add: pow)
  have "\<bar>of_int n :: rat\<bar> < 2 ^ 53"
    using assms by (metis of_int_abs of_int_less_numeral_power_cancel_iff)
  also have "\<dots> < (2 :: rat) ^ 1024" by simp
  finally have small: "\<not> ipow 2 1024 \<le> \<bar>of_int n :: rat\<bar>"
    by (simp add: ipow_def)
  from False r small show ?thesis
    unfolding fl_def Let_def p_def [symmetric] by simp
qed

lemma takeWhile_digits:
  assumes "list_all is_digit ds" and "rest = [] \<or> \<not> is_digit (hd rest)"
  shows "takeWhile is_digit (ds @ rest) = ds"
proof (cases rest)
  case Nil
  with assms(1) show ?thesis by (simp add: list_all_iff)
next
  case (Cons x xs)
  with assms show ?thesis
    by (simp add: list_all_iff takeWhile_tail)
qed

lemma parseInt_prefix:
  assumes "list_all is_white_space ws" and "sg = [] \<or> sg = [0x2B] \<or> sg = [0x2D]"
    and "ds \<noteq> []" and "list_all is_digit ds" and "rest = [] \<or> \<not> is_digit (hd rest)"
  shows "parseInt (ws @ sg @ ds @ rest)
           = fl (of_int (if sg = [0x2D] then - decimal ds else decimal ds))"
proof -
  from assms(3,4) have d: "is_digit (hd ds)" by (auto simp: list_all_iff)
  then have hd_ds: "\<not> is_white_space (hd ds)" "hd ds \<noteq> 0x2B" "hd ds \<noteq> 0x2D"
    using digit_not_white_space digit_not_mark by blast+
  have signs: "\<not> is_white_space 0x2B" "\<not> is_white_space 0x2D"
    by (simp_all add: is_white_space_def)
  have "\<not> is_white_space (hd (sg @ ds @ rest))" "sg @ ds @ rest \<noteq> []"
    using assms(2,3) hd_ds signs by auto
  then have "dropWhile is_white_space (sg @ ds @ rest) = sg @ ds @ rest"
    by (simp add: dropWhile_keeps)
  moreover have "dropWhile is_white_space (ws @ sg @ ds @ rest) = dropWhile is_white_space (sg @ ds @ rest)"
    using assms(1) by (intro dropWhile_append2) (simp add: list_all_iff)
  ultimately have t: "trimStart (ws @ sg @ ds @ rest) = sg @ ds @ rest"
    by (simp add: trimStart_def)
  note tw = takeWhile_digits [OF assms(4,5)]
  from assms(2) consider "sg = []" | "sg = [0x2B]" | "sg = [0x2D]" by blast
  then show ?thesis
  proof cases
    case 1
    with t have "trimStart (ws @ ds @ rest) = ds @ rest" by simp
    with 1 assms(3) hd_ds tw show ?thesis
      by (simp add: parseInt_def Let_def)
  next
    case 2
    with t have "trimStart (ws @ 0x2B # ds @ rest) = 0x2B # ds @ rest" by simp
    with 2 assms(3) tw show ?thesis
      by (simp add: parseInt_def Let_def)
  next
    case 3
    with t have "trimStart (ws @ 0x2D # ds @ rest) = 0x2D # ds @ rest" by simp
    with 3 assms(3) tw show ?thesis
      by (simp add: parseInt_def Let_def)
  qed
qed

text \<open>
  C9. A field of type \<^verbatim>\<open>int\<close> that starts, after optional white space and an optional
  sign, with a run of decimal digits is never \<^verbatim>\<open>null\<close>: whatever follows the digits is
  dropped and the result is the Number of the signed prefix, which is the integer
  itself when its magnitude is below \<open>2 ^ 53\<close>.
\<close>

theorem parseValue_int_prefix:
  assumes "list_all is_white_space ws" and "sg = [] \<or> sg = [0x2B] \<or> sg = [0x2D]"
    and "ds \<noteq> []" and "list_all is_digit ds" and "rest = [] \<or> \<not> is_digit (hd rest)"
  shows "parseValue pw (Some (ws @ sg @ ds @ rest)) TypeInt
           = Num (fl (of_int (if sg = [0x2D] then - decimal ds else decimal ds)))
         \<and> (decimal ds < 2 ^ 53 \<longrightarrow>
              parseValue pw (Some (ws @ sg @ ds @ rest)) TypeInt
                = Num (Finite (of_int (if sg = [0x2D] then - decimal ds else decimal ds))))
         \<and> parseValue pw (Some (ws @ sg @ ds @ rest)) TypeInt
              = parseValue pw (Some (sg @ ds)) TypeInt
         \<and> parseValue pw (Some (ws @ sg @ ds @ rest)) TypeInt \<noteq> Null"
proof -
  have v: "parseValue pw (Some (ws @ sg @ ds @ rest)) TypeInt
             = Num (fl (of_int (if sg = [0x2D] then - decimal ds else decimal ds)))"
    using assms(3) by (simp add: parseValue_def parseInt_prefix [OF assms])
  have "parseInt (sg @ ds) = fl (of_int (if sg = [0x2D] then - decimal ds else decimal ds))"
    using parseInt_prefix [of "[]" sg ds "[]"] assms by simp
  then have w: "parseValue pw (Some (sg @ ds)) TypeInt
             = Num (fl (of_int (if sg = [0x2D] then - decimal ds else decimal ds)))"
    using assms(3) by (simp add: parseValue_def)
  have "0 \<le> decimal ds" using assms(4) by (rule decimal_nonneg)
  then have "decimal ds < 2 ^ 53 \<longrightarrow>
        fl (of_int (if sg = [0x2D] then - decimal ds else decimal ds))
          = Finite (of_int (if sg = [0x2D] then - decimal ds else decimal ds))"
    by (intro impI fl_of_int) simp
  with v w show ?thesis by simp
qed

theorem parseValue_int_prefix_witness:
  "list_all is_white_space [] \<and> list_all is_digit (lit ''12'') \<and> \<not> is_digit (hd (lit ''abc''))
   \<and> decimal (lit ''12'') < 2 ^ 53
   \<and> parseValue (\<lambda>y. NaN) (Some (lit ''12abc'')) TypeInt = Num (Finite 12)"
proof -
  have h: "list_all is_white_space []" "([] :: jsstring) = [] \<or> ([] :: jsstring) = [0x2B] \<or> ([] :: jsstring) = [0x2D]"
    "lit ''12'' \<noteq> []" "list_all is_digit (lit ''12'')"
    "lit ''abc'' = [] \<or> \<not> is_digit (hd (lit ''abc''))"
    by (simp_all add: lit_def is_digit_def)
  have d: "decimal (lit ''12'') = 12"
    by (simp add: lit_def decimal_def radix_value_def digit_value_def)
  from parseValue_int_prefix [OF h, of "\<lambda>y. NaN", THEN conjunct2, THEN conjunct1] d
  have "parseValue (\<lambda>y. NaN) (Some (lit ''12'' @ lit ''abc'')) TypeInt = Num (Finite 12)"
    by simp
  moreover have "lit ''12'' @ lit ''abc'' = lit ''12abc''"
    by (simp add: lit_def)
  moreover have "\<not> is_digit (hd (lit ''abc''))"
    by (simp add: lit_def is_digit_def)
  ultimately show ?thesis
    using h(4) d by simp
qed











text \<open>
  C10. The scientific path goes through doubles twice: the coefficient is read as a
  double, and so is its product with the power of ten. The coefficient of
  \<^verbatim>\<open>"1.2345678901234567891e19"\<close> denotes \<open>12345678901234567891 / 10 ^ 19\<close>, so the exact
  product is \<open>12345678901234567891\<close>, and the string returned is
  \<^verbatim>\<open>"12345678901234567168"\<close>. For \<^verbatim>\<open>"1.2345678901234568085e19"\<close> the exact product rounded
  once to a double would be \<open>12345678901234567168\<close>; the coefficient read as a double is
  \<open>1389999872480895 / 2 ^ 50\<close>, and the string returned is \<^verbatim>\<open>"12345678901234569216"\<close>. A
  plain run of decimal digits of any length goes through \<^verbatim>\<open>BigInt(str)\<close> and comes back
  as the decimal writing of exactly the integer it denotes.
\<close>

theorem parseValue_BigInt_precision:
  "map_option fst (scan_decimal (lit ''1.2345678901234567891''))
     = Some (12345678901234567891 / 10 ^ 19)
   \<and> parseValue pw (Some (lit ''1.2345678901234567891e19'')) TypeBigInt
       = Str (lit ''12345678901234567168'')
   \<and> lit ''12345678901234567168'' \<noteq> show_int 12345678901234567891
   \<and> map_option fst (scan_decimal (lit ''1.2345678901234568085''))
       = Some (12345678901234568085 / 10 ^ 19)
   \<and> parseFloat (lit ''1.2345678901234568085'') = Finite (1389999872480895 / 2 ^ 50)
   \<and> fl (12345678901234568085 / 10 ^ 19 * 10 ^ 19) = Finite 12345678901234567168
   \<and> multiply (Finite (1389999872480895 / 2 ^ 50)) (Finite (10 ^ 19)) = Finite 12345678901234569216
   \<and> parseValue pw (Some (lit ''1.2345678901234568085e19'')) TypeBigInt
       = Str (lit ''12345678901234569216'')
   \<and> lit ''12345678901234569216'' \<noteq> show_int 12345678901234568085
   \<and> (\<forall>ds. ds \<noteq> [] \<and> list_all is_digit ds \<longrightarrow>
        parseValue pw (Some ds) TypeBigInt = Str (show_int (decimal ds))
        \<and> decimal (show_int (decimal ds)) = decimal ds)"
proof -
  have coefficient: "map_option fst (scan_decimal (lit ''1.2345678901234567891''))
     = Some (12345678901234567891 / 10 ^ 19)"
    by code_simp
  have rounded: "parseValue pw (Some (lit ''1.2345678901234567891e19'')) TypeBigInt
       = Str (lit ''12345678901234567168'')"
    by code_simp
  have differs: "lit ''12345678901234567168'' \<noteq> show_int 12345678901234567891"
    by code_simp
  have coefficient2: "map_option fst (scan_decimal (lit ''1.2345678901234568085''))
       = Some (12345678901234568085 / 10 ^ 19)"
    by code_simp
  have as_double: "parseFloat (lit ''1.2345678901234568085'') = Finite (1389999872480895 / 2 ^ 50)"
    by code_simp
  have once: "fl (12345678901234568085 / 10 ^ 19 * 10 ^ 19) = Finite 12345678901234567168"
    by code_simp
  have twice: "multiply (Finite (1389999872480895 / 2 ^ 50)) (Finite (10 ^ 19))
                 = Finite 12345678901234569216"
    by code_simp
  have rounded2: "parseValue pw (Some (lit ''1.2345678901234568085e19'')) TypeBigInt
       = Str (lit ''12345678901234569216'')"
    by code_simp
  have differs2: "lit ''12345678901234569216'' \<noteq> show_int 12345678901234568085"
    by code_simp
  have plain: "parseValue pw (Some ds) TypeBigInt = Str (show_int (decimal ds))
        \<and> decimal (show_int (decimal ds)) = decimal ds"
    if "ds \<noteq> []" "list_all is_digit ds" for ds
  proof -
    from that(2) have "0 \<le> decimal ds" by (rule decimal_nonneg)
    with show_nat_digits [of "decimal ds"] have "decimal (show_int (decimal ds)) = decimal ds"
      by (simp add: show_int_def)
    with parseValue_BigInt_digits [OF that] show ?thesis by simp
  qed
  from coefficient rounded differs coefficient2 as_double once twice rounded2 differs2 plain
  show ?thesis by blast
qed

theorem parseValue_BigInt_precision_witness:
  "lit ''123456789012345678901234567890'' \<noteq> []
   \<and> list_all is_digit (lit ''123456789012345678901234567890'')
   \<and> parseValue (\<lambda>y. NaN) (Some (lit ''123456789012345678901234567890'')) TypeBigInt
       = Str (lit ''123456789012345678901234567890'')"
proof -
  have h: "lit ''123456789012345678901234567890'' \<noteq> []
           \<and> list_all is_digit (lit ''123456789012345678901234567890'')"
    by code_simp
  have e: "show_int (decimal (lit ''123456789012345678901234567890''))
             = lit ''123456789012345678901234567890''"
    by code_simp
  from parseValue_BigInt_precision [of "\<lambda>y. NaN"] h
  have "parseValue (\<lambda>y. NaN) (Some (lit ''123456789012345678901234567890'')) TypeBigInt
          = Str (show_int (decimal (lit ''123456789012345678901234567890'')))"
    by blast
  with e h show ?thesis by simp
qed

end
